theory Spec2Isabelle
  imports Complex_Main
begin

section \<open>The card pool of adaptivecards-pool.ts\<close>

text \<open>
  The class \<open>CardPool\<close> keeps three structures: the object \<open>cardPool\<close> (name to card),
  and two JavaScript \<open>Set\<close>s, \<open>cardSet\<close> and \<open>statefulCardSet\<close>, used as queues of unique
  names in insertion order (oldest first).

  Modelling decisions:
  \<^item> a JavaScript \<open>Set\<close> is the list of its elements in insertion order; \<open>delete\<close> filters
    the element out, \<open>add\<close> appends it unless it is already a member (its position is
    then kept), \<open>has\<close> is membership and \<open>size\<close> the length;
  \<^item> \<open>Array.from\<close> of a set is that list;
  \<^item> the object \<open>cardPool\<close> is a plain object (\<open>= {}\<close>): its own properties are a map
    from names to cards, and a read \<open>cardPool[name]\<close> of a name that is no own property
    gives the property inherited from \<open>Object.prototype\<close> when there is one, and
    \<open>undefined\<close> otherwise. The code assigns to \<open>cardPool[name]\<close> only where that read
    gave \<open>undefined\<close>, so it never assigns to an inherited name, and \<open>delete\<close> removes
    an own property only;
  \<^item> the constructor's capacity is an integer (the specification's configuration
    parameter); \<open>Math.ceil(c / 4)\<close> is the ceiling of the real quotient;
  \<^item> an optional argument is an \<open>option\<close>; a supplied \<open>statefulCard\<close> is an
    \<open>AdaptiveCard\<close> object, hence truthy and an instance of \<open>AdaptiveCard\<close>;
  \<^item> the \<open>adaptivecards\<close> library is external: its operations are parameters, and
    parsing may throw, which is a value \<open>Inl e\<close>;
  \<^item> \<open>console.debug\<close> has no effect on the pool and is left out.
\<close>

type_synonym CardName = string

subsection \<open>JavaScript sets as insertion-ordered lists\<close>

definition Set_delete :: "'a list \<Rightarrow> 'a \<Rightarrow> 'a list" where
  "Set_delete xs x = filter (\<lambda>y. y \<noteq> x) xs"

definition Set_add :: "'a list \<Rightarrow> 'a \<Rightarrow> 'a list" where
  "Set_add xs x = (if x \<in> set xs then xs else xs @ [x])"

definition Set_has :: "'a list \<Rightarrow> 'a \<Rightarrow> bool" where
  "Set_has xs x = (x \<in> set xs)"

definition Set_size :: "'a list \<Rightarrow> int" where
  "Set_size xs = int (length xs)"

subsection \<open>The pool and its constructor\<close>

record 'c CardPool =
  CAPACITY_CARDS :: int
  CAPACITY_STATEFUL_CARDS :: int
  cardPool :: "CardName \<rightharpoonup> 'c"
  cardSet :: "CardName list"
  statefulCardSet :: "CardName list"

text \<open>
  The properties of \<open>Object.prototype\<close>, as ECMAScript with its Annex B defines them:
  every plain object inherits them.
\<close>

definition Object_prototype :: "CardName list" where
  "Object_prototype =
     [''constructor'', ''hasOwnProperty'', ''isPrototypeOf'', ''propertyIsEnumerable'',
      ''toLocaleString'', ''toString'', ''valueOf'', ''__proto__'',
      ''__defineGetter__'', ''__defineSetter__'', ''__lookupGetter__'', ''__lookupSetter__'']"

definition inherited :: "CardName \<Rightarrow> bool" where
  "inherited cardName = (cardName \<in> set Object_prototype)"

text \<open>
  The value of the read \<open>this.cardPool[cardName]\<close>: the card stored as an own property,
  or else the inherited property of that name (a function or an object, never a card
  and never \<open>null\<close>), or else \<open>undefined\<close>.
\<close>

datatype 'c jsval = Undefined | Card 'c | Inherited CardName

definition cardPool_get :: "'c CardPool \<Rightarrow> CardName \<Rightarrow> 'c jsval" where
  "cardPool_get p cardName =
     (case cardPool p cardName of
        Some c \<Rightarrow> Card c
      | None \<Rightarrow> if inherited cardName then Inherited cardName else Undefined)"

text \<open>\<open>constructor(cardPoolCapacity = 8)\<close>: the argument defaults to 8.\<close>

definition new_CardPool :: "int option \<Rightarrow> 'c CardPool" where
  "new_CardPool arg =
     (let cardPoolCapacity = (case arg of None \<Rightarrow> 8 | Some c \<Rightarrow> c);
          cap = max 4 cardPoolCapacity
      in \<lparr> CAPACITY_CARDS = cap,
           CAPACITY_STATEFUL_CARDS = \<lceil>real_of_int cap / 4\<rceil>,
           cardPool = Map.empty,
           cardSet = [],
           statefulCardSet = [] \<rparr>)"

subsection \<open>The external library and \<open>createCardOnDemand\<close>\<close>

text \<open>
  \<open>parse\<close> stands for \<open>new AdaptiveCard()\<close> followed by \<open>card.parse(payload)\<close>: it gives the
  card or the exception thrown. \<open>setCustomProperty\<close> binds a property to the card.
\<close>

record ('p, 'c, 'e) AdaptiveCards =
  parse :: "'p \<Rightarrow> 'e + 'c"
  setCustomProperty :: "string \<Rightarrow> CardName \<Rightarrow> 'c \<Rightarrow> 'c"

definition createCardOnDemand ::
  "('p, 'c, 'e) AdaptiveCards \<Rightarrow> CardName \<Rightarrow> 'p \<Rightarrow> 'e + 'c" where
  "createCardOnDemand lib cardName cardPayload =
     (case parse lib cardPayload of
        Inl e \<Rightarrow> Inl e
      | Inr c \<Rightarrow> Inr (setCustomProperty lib ''cardName'' cardName c))"

subsection \<open>\<open>purgeUnusedCard\<close>\<close>

text \<open>
  Lines 66 to 70: when the stateful set is over its capacity, its first element is
  deleted from it. \<open>Array.from(set)[0]\<close> of an empty set is \<open>undefined\<close>, whose deletion
  changes nothing.
\<close>

definition purgeStateful :: "'c CardPool \<Rightarrow> 'c CardPool" where
  "purgeStateful p =
     (if Set_size (statefulCardSet p) > CAPACITY_STATEFUL_CARDS p then
        (case statefulCardSet p of
           [] \<Rightarrow> p
         | cardName # _ \<Rightarrow> p\<lparr> statefulCardSet := Set_delete (statefulCardSet p) cardName \<rparr>)
      else p)"

text \<open>
  Lines 72 to 79: the loop over the snapshot \<open>Array.from(this.cardSet)\<close>; the first name
  that the stateful set does not hold is deleted from the set and from the object, and
  the loop breaks.
\<close>

fun purgeLoop :: "CardName list \<Rightarrow> 'c CardPool \<Rightarrow> 'c CardPool" where
  "purgeLoop [] p = p"
| "purgeLoop (cardName # rest) p =
     (if \<not> Set_has (statefulCardSet p) cardName then
        p\<lparr> cardSet := Set_delete (cardSet p) cardName,
           cardPool := (cardPool p)(cardName := None) \<rparr>
      else purgeLoop rest p)"

definition purgeCards :: "'c CardPool \<Rightarrow> 'c CardPool" where
  "purgeCards p =
     (if Set_size (cardSet p) > CAPACITY_CARDS p then purgeLoop (cardSet p) p else p)"

definition purgeUnusedCard :: "'c CardPool \<Rightarrow> 'c CardPool" where
  "purgeUnusedCard p = purgeCards (purgeStateful p)"

subsection \<open>\<open>markCardInuse\<close> and \<open>getCard\<close>\<close>

text \<open>
  Lines 45 to 52: the updates of the three structures before the purge. The assignment
  \<open>this.cardPool[cardName] ??= statefulCard\<close> stores the card only when the read gives
  \<open>undefined\<close>.
\<close>

definition markUpdate :: "'c CardPool \<Rightarrow> CardName \<Rightarrow> 'c option \<Rightarrow> 'c CardPool" where
  "markUpdate p cardName statefulCard =
     (let p1 = p\<lparr> cardSet := Set_add (Set_delete (cardSet p) cardName) cardName \<rparr>
      in case statefulCard of
           None \<Rightarrow> p1
         | Some sc \<Rightarrow>
             p1\<lparr> statefulCardSet :=
                    Set_add (Set_delete (statefulCardSet p1) cardName) cardName,
                 cardPool :=
                    (if cardPool_get p1 cardName = Undefined
                     then (cardPool p1)(cardName \<mapsto> sc)
                     else cardPool p1) \<rparr>)"

definition markCardInuse :: "'c CardPool \<Rightarrow> CardName \<Rightarrow> 'c option \<Rightarrow> 'c CardPool" where
  "markCardInuse p cardName statefulCard =
     (if cardPool_get p cardName \<noteq> Undefined \<or> statefulCard \<noteq> None then
        purgeUnusedCard (markUpdate p cardName statefulCard)
      else p)"

text \<open>
  \<open>getCard\<close> gives the pool after the call and either the exception that left the call
  or the returned value, the read \<open>this.cardPool[cardName]\<close> of line 40. An exception of
  \<open>createCardOnDemand\<close> leaves the call before the assignment to
  \<open>this.cardPool[cardName]\<close>.
\<close>

definition getCard ::
  "('p, 'c, 'e) AdaptiveCards \<Rightarrow> 'c CardPool \<Rightarrow> CardName \<Rightarrow> 'p option
     \<Rightarrow> 'c CardPool \<times> ('e + 'c jsval)" where
  "getCard lib p cardName cardPayload =
     (let finish = (\<lambda>q. let q' = markCardInuse q cardName None
                         in (q', Inr (cardPool_get q' cardName)))
      in if cardPool_get p cardName \<noteq> Undefined then finish p
         else (case cardPayload of
                 Some payload \<Rightarrow>
                   (case createCardOnDemand lib cardName payload of
                      Inl e \<Rightarrow> (p, Inl e)
                    | Inr c \<Rightarrow> finish (p\<lparr> cardPool := (cardPool p)(cardName \<mapsto> c) \<rparr>))
               | None \<Rightarrow> finish p))"

subsection \<open>Sequences of public calls\<close>

datatype ('p, 'c) call =
  GetCard CardName "'p option"
| MarkCardInuse CardName "'c option"

fun call_step :: "('p, 'c, 'e) AdaptiveCards \<Rightarrow> 'c CardPool \<Rightarrow> ('p, 'c) call \<Rightarrow> 'c CardPool" where
  "call_step lib p (GetCard cardName cardPayload) = fst (getCard lib p cardName cardPayload)"
| "call_step lib p (MarkCardInuse cardName statefulCard) = markCardInuse p cardName statefulCard"

fun run :: "('p, 'c, 'e) AdaptiveCards \<Rightarrow> 'c CardPool \<Rightarrow> ('p, 'c) call list \<Rightarrow> 'c CardPool" where
  "run lib p [] = p"
| "run lib p (c # cs) = run lib (call_step lib p c) cs"

subsection \<open>Invariants\<close>

text \<open>
  \<open>pool_inv\<close>: both sets hold no name twice, the own properties of \<open>cardPool\<close> are
  exactly the names of \<open>cardSet\<close> that \<open>Object.prototype\<close> does not have, and the
  stateful names are in \<open>cardSet\<close>. \<open>caps_ok\<close>: the capacities a
  constructor gives. \<open>cap_inv\<close>: both sets are within capacity, as between calls;
  \<open>mid_inv\<close>: at most one over, as inside a call before the purge.
\<close>

definition pool_inv :: "'c CardPool \<Rightarrow> bool" where
  "pool_inv p =
     (distinct (cardSet p) \<and> distinct (statefulCardSet p)
      \<and> dom (cardPool p) = {n \<in> set (cardSet p). \<not> inherited n}
      \<and> set (statefulCardSet p) \<subseteq> set (cardSet p))"

definition caps_ok :: "'c CardPool \<Rightarrow> bool" where
  "caps_ok p =
     (4 \<le> CAPACITY_CARDS p \<and> 1 \<le> CAPACITY_STATEFUL_CARDS p
      \<and> CAPACITY_STATEFUL_CARDS p < CAPACITY_CARDS p)"

definition cap_inv :: "'c CardPool \<Rightarrow> bool" where
  "cap_inv p =
     (caps_ok p
      \<and> Set_size (cardSet p) \<le> CAPACITY_CARDS p
      \<and> Set_size (statefulCardSet p) \<le> CAPACITY_STATEFUL_CARDS p)"

definition mid_inv :: "'c CardPool \<Rightarrow> bool" where
  "mid_inv p =
     (caps_ok p
      \<and> Set_size (cardSet p) \<le> CAPACITY_CARDS p + 1
      \<and> Set_size (statefulCardSet p) \<le> CAPACITY_STATEFUL_CARDS p + 1)"

subsection \<open>Examples\<close>

text \<open>
  Concrete pools of capacity 4 with one stateful slot, a library that parses every
  payload but 0, and sequences of calls, on which the theorems are evaluated.
\<close>

definition demo_pool :: "nat CardPool" where
  "demo_pool =
     \<lparr> CAPACITY_CARDS = 4, CAPACITY_STATEFUL_CARDS = 1,
       cardPool = [''a'' \<mapsto> 1, ''b'' \<mapsto> 2, ''c'' \<mapsto> 3, ''d'' \<mapsto> 4, ''e'' \<mapsto> 5],
       cardSet = [''a'', ''b'', ''c'', ''d'', ''e''],
       statefulCardSet = [''a''] \<rparr>"

definition demo_pool_protected :: "nat CardPool" where
  "demo_pool_protected =
     \<lparr> CAPACITY_CARDS = 4, CAPACITY_STATEFUL_CARDS = 5,
       cardPool = [''a'' \<mapsto> 1, ''b'' \<mapsto> 2, ''c'' \<mapsto> 3, ''d'' \<mapsto> 4, ''e'' \<mapsto> 5],
       cardSet = [''a'', ''b'', ''c'', ''d'', ''e''],
       statefulCardSet = [''a'', ''b'', ''c'', ''d'', ''e''] \<rparr>"


definition demo_lib :: "(nat, nat, unit) AdaptiveCards" where
  "demo_lib = \<lparr> parse = (\<lambda>payload. if payload = 0 then Inl () else Inr payload),
                setCustomProperty = (\<lambda>key cardName c. c) \<rparr>"

definition demo_calls :: "(nat, nat) call list" where
  "demo_calls =
     [GetCard ''a'' (Some 1), GetCard ''b'' (Some 2), GetCard ''c'' (Some 3),
      GetCard ''d'' (Some 4), MarkCardInuse ''a'' (Some 1), GetCard ''e'' (Some 5)]"

definition protection_calls :: "'p \<Rightarrow> 'p \<Rightarrow> 'p \<Rightarrow> 'p \<Rightarrow> 'c \<Rightarrow> 'p \<Rightarrow> ('p, 'c) call list" where
  "protection_calls pa pb pc pd statefulRef pe =
     [GetCard ''a'' (Some pa), GetCard ''b'' (Some pb), GetCard ''c'' (Some pc),
      GetCard ''d'' (Some pd), MarkCardInuse ''a'' (Some statefulRef), GetCard ''e'' (Some pe)]"

section \<open>Basic facts\<close>

lemma ceil_quarter: "\<lceil>real_of_int c / 4\<rceil> = (c + 3) div 4"
proof -
  have "\<lceil>real_of_int c / real_of_int 4\<rceil> = - (- c div 4)"
    by (rule ceiling_divide_eq_div)
  then show ?thesis by simp
qed


lemma set_Set_delete: "set (Set_delete xs x) = set xs - {x}"
  by (auto simp: Set_delete_def)

lemma distinct_Set_delete: "distinct xs \<Longrightarrow> distinct (Set_delete xs x)"
  by (simp add: Set_delete_def)

lemma Set_delete_remove1: "distinct xs \<Longrightarrow> Set_delete xs x = remove1 x xs"
  by (simp add: Set_delete_def distinct_remove1_removeAll removeAll_filter_not_eq) (metis)

lemma Set_delete_hd: "distinct (x # xs) \<Longrightarrow> Set_delete (x # xs) x = xs"
  by (simp add: Set_delete_remove1)

lemma move_to_end: "Set_add (Set_delete xs x) x = filter (\<lambda>y. y \<noteq> x) xs @ [x]"
  by (simp add: Set_add_def Set_delete_def)

lemma purgeLoop_find:
  "purgeLoop ns p =
     (case find (\<lambda>n. \<not> Set_has (statefulCardSet p) n) ns of
        None \<Rightarrow> p
      | Some n \<Rightarrow> p\<lparr> cardSet := Set_delete (cardSet p) n, cardPool := (cardPool p)(n := None) \<rparr>)"
  by (induction ns) simp_all

lemma purgeStateful_frame [simp]:
  "cardSet (purgeStateful p) = cardSet p"
  "cardPool (purgeStateful p) = cardPool p"
  "CAPACITY_CARDS (purgeStateful p) = CAPACITY_CARDS p"
  "CAPACITY_STATEFUL_CARDS (purgeStateful p) = CAPACITY_STATEFUL_CARDS p"
  by (simp_all add: purgeStateful_def split: list.split)

lemma purgeCards_frame [simp]:
  "statefulCardSet (purgeCards p) = statefulCardSet p"
  "CAPACITY_CARDS (purgeCards p) = CAPACITY_CARDS p"
  "CAPACITY_STATEFUL_CARDS (purgeCards p) = CAPACITY_STATEFUL_CARDS p"
  by (simp_all add: purgeCards_def purgeLoop_find split: option.split)

lemma find_Some_mem: "find P xs = Some x \<Longrightarrow> x \<in> set xs \<and> P x"
  by (induction xs) (auto split: if_splits)

lemma purgeCards_none:
  assumes "find (\<lambda>n. \<not> Set_has (statefulCardSet q) n) (cardSet q) = None"
  shows "purgeCards q = q"
  using assms by (simp add: purgeCards_def purgeLoop_find)

lemma purgeCards_some:
  assumes d: "distinct (cardSet q)" and over: "Set_size (cardSet q) > CAPACITY_CARDS q"
    and f: "find (\<lambda>n. \<not> Set_has (statefulCardSet q) n) (cardSet q) = Some n"
  shows "purgeCards q = q\<lparr> cardSet := remove1 n (cardSet q), cardPool := (cardPool q)(n := None) \<rparr>"
    and "n \<in> set (cardSet q)"
    and "length (cardSet (purgeCards q)) + 1 = length (cardSet q)"
proof -
  show mem: "n \<in> set (cardSet q)" using f by (auto dest: find_Some_mem)
  show eq: "purgeCards q = q\<lparr> cardSet := remove1 n (cardSet q), cardPool := (cardPool q)(n := None) \<rparr>"
    using over f d by (simp add: purgeCards_def purgeLoop_find Set_delete_remove1)
  have "0 < length (cardSet q)" using mem by (rule length_pos_if_in_set)
  then have "length (remove1 n (cardSet q)) + 1 = length (cardSet q)"
    using mem by (simp add: length_remove1)
  then show "length (cardSet (purgeCards q)) + 1 = length (cardSet q)"
    by (simp add: eq)
qed

section \<open>The eviction pass\<close>

text \<open>
  Claim C1. Let the set of all cards be over \<open>CAPACITY_CARDS\<close> when the second step of
  \<open>purgeUnusedCard\<close> starts, that is, in the pool \<open>purgeStateful p\<close>. The pass then
  deletes the first name of \<open>cardSet\<close>, in insertion order, that the stateful set does
  not hold: that one name leaves \<open>cardSet\<close> and \<open>cardPool\<close>, nothing else changes, and the
  set is one shorter. If the stateful set holds every name of \<open>cardSet\<close>, the second step
  changes nothing and the set stays over capacity.
\<close>

theorem total_overflow_step:
  assumes "distinct (cardSet p)"
    and "Set_size (cardSet (purgeStateful p)) > CAPACITY_CARDS (purgeStateful p)"
  shows "case find (\<lambda>n. \<not> Set_has (statefulCardSet (purgeStateful p)) n) (cardSet p) of
           Some n \<Rightarrow>
             purgeUnusedCard p =
               (purgeStateful p)\<lparr> cardSet := remove1 n (cardSet p),
                                  cardPool := (cardPool p)(n := None) \<rparr>
             \<and> n \<in> set (cardSet p)
             \<and> length (cardSet (purgeUnusedCard p)) + 1 = length (cardSet p)
         | None \<Rightarrow>
             purgeUnusedCard p = purgeStateful p
             \<and> cardSet (purgeUnusedCard p) = cardSet p
             \<and> cardPool (purgeUnusedCard p) = cardPool p
             \<and> Set_size (cardSet (purgeUnusedCard p)) > CAPACITY_CARDS (purgeUnusedCard p)"
proof -
  let ?q = "purgeStateful p"
  have d: "distinct (cardSet ?q)" using assms(1) by simp
  show ?thesis
  proof (cases "find (\<lambda>n. \<not> Set_has (statefulCardSet ?q) n) (cardSet p)")
    case None
    then have "purgeCards ?q = ?q" by (simp add: purgeCards_none)
    then show ?thesis using None assms(2) by (simp add: purgeUnusedCard_def)
  next
    case (Some n)
    then have f: "find (\<lambda>n. \<not> Set_has (statefulCardSet ?q) n) (cardSet ?q) = Some n"
      by simp
    note h = purgeCards_some [OF d assms(2) f]
    have "purgeUnusedCard p =
            ?q\<lparr> cardSet := remove1 n (cardSet p), cardPool := (cardPool p)(n := None) \<rparr>"
      using h(1) by (simp add: purgeUnusedCard_def)
    moreover have "n \<in> set (cardSet p)" using h(2) by simp
    moreover have "length (cardSet (purgeUnusedCard p)) + 1 = length (cardSet p)"
      using h(3) by (simp add: purgeUnusedCard_def)
    ultimately show ?thesis unfolding Some option.case by blast
  qed
qed


theorem total_overflow_step_witness:
  "(distinct (cardSet demo_pool)
    \<and> Set_size (cardSet (purgeStateful demo_pool)) > CAPACITY_CARDS (purgeStateful demo_pool)
    \<and> cardSet (purgeUnusedCard demo_pool) = [''a'', ''c'', ''d'', ''e'']
    \<and> cardPool (purgeUnusedCard demo_pool) ''b'' = None
    \<and> cardPool (purgeUnusedCard demo_pool) ''a'' = Some 1)
   \<and> (distinct (cardSet demo_pool_protected)
    \<and> Set_size (cardSet (purgeStateful demo_pool_protected))
         > CAPACITY_CARDS (purgeStateful demo_pool_protected)
    \<and> purgeUnusedCard demo_pool_protected = demo_pool_protected)"
proof -
  have d1: "distinct (cardSet demo_pool)" by (simp add: demo_pool_def)
  have o1: "Set_size (cardSet (purgeStateful demo_pool)) > CAPACITY_CARDS (purgeStateful demo_pool)"
    by (simp add: demo_pool_def Set_size_def)
  have s1: "purgeStateful demo_pool = demo_pool"
    by (simp add: demo_pool_def purgeStateful_def Set_size_def)
  have f1: "find (\<lambda>n. \<not> Set_has (statefulCardSet demo_pool) n) (cardSet demo_pool)
              = Some ''b''"
    by (simp add: demo_pool_def Set_has_def)
  have r1: "purgeUnusedCard demo_pool =
              demo_pool\<lparr> cardSet := remove1 ''b'' (cardSet demo_pool),
                         cardPool := (cardPool demo_pool)(''b'' := None) \<rparr>"
    using total_overflow_step [OF d1 o1] unfolding s1 f1 by simp
  have d2: "distinct (cardSet demo_pool_protected)" by (simp add: demo_pool_protected_def)
  have o2: "Set_size (cardSet (purgeStateful demo_pool_protected))
              > CAPACITY_CARDS (purgeStateful demo_pool_protected)"
    by (simp add: demo_pool_protected_def Set_size_def)
  have s2: "purgeStateful demo_pool_protected = demo_pool_protected"
    by (simp add: demo_pool_protected_def purgeStateful_def Set_size_def)
  have f2: "find (\<lambda>n. \<not> Set_has (statefulCardSet demo_pool_protected) n)
              (cardSet demo_pool_protected) = None"
    by (simp add: demo_pool_protected_def Set_has_def)
  have r2: "purgeUnusedCard demo_pool_protected = demo_pool_protected"
    using total_overflow_step [OF d2 o2] unfolding s2 f2 by simp
  have c1: "cardSet (purgeUnusedCard demo_pool) = [''a'', ''c'', ''d'', ''e'']"
    unfolding r1 by (simp add: demo_pool_def)
  have c2: "cardPool (purgeUnusedCard demo_pool) ''b'' = None"
    unfolding r1 by simp
  have c3: "cardPool (purgeUnusedCard demo_pool) ''a'' = Some 1"
    unfolding r1 by (simp add: demo_pool_def)
  show ?thesis using d1 o1 c1 c2 c3 d2 o2 r2 by blast
qed



section \<open>Preservation of the invariants\<close>

lemma set_move: "set (Set_add (Set_delete xs x) x) = insert x (set xs)"
  by (auto simp: move_to_end)

lemma distinct_move: "distinct xs \<Longrightarrow> distinct (Set_add (Set_delete xs x) x)"
  by (simp add: move_to_end)

lemma length_move: "length (Set_add (Set_delete xs x) x) \<le> length xs + 1"
  by (simp add: move_to_end)

lemma move_last:
  assumes d: "distinct xs" and ne: "xs \<noteq> []" and l: "last xs = x"
  shows "Set_add (Set_delete xs x) x = xs"
proof -
  have xs: "butlast xs @ [x] = xs" using append_butlast_last_id [OF ne] l by simp
  have "distinct (butlast xs @ [x])" using d by (simp only: xs)
  then have "x \<notin> set (butlast xs)" by simp
  then have "filter (\<lambda>y. y \<noteq> x) (butlast xs @ [x]) = butlast xs"
    by (auto simp: filter_id_conv)
  then have "filter (\<lambda>y. y \<noteq> x) xs = butlast xs" by (simp only: xs)
  then show ?thesis using xs by (simp add: move_to_end)
qed

lemma cardPool_get_Undefined:
  "cardPool_get p n = Undefined \<longleftrightarrow> cardPool p n = None \<and> \<not> inherited n"
  by (simp add: cardPool_get_def split: option.split)

lemma cardPool_get_Card:
  "cardPool_get p n = Card c \<longleftrightarrow> cardPool p n = Some c"
  by (simp add: cardPool_get_def split: option.split)

lemma cardPool_get_cong:
  "cardPool q = cardPool p \<Longrightarrow> cardPool_get q n = cardPool_get p n"
  by (simp add: cardPool_get_def)

lemma cardPool_get_frame [simp]:
  "cardPool_get (p\<lparr> cardSet := cs \<rparr>) n = cardPool_get p n"
  "cardPool_get (p\<lparr> statefulCardSet := ss \<rparr>) n = cardPool_get p n"
  "cardPool_get (purgeStateful p) n = cardPool_get p n"
  by (simp_all add: cardPool_get_def)

lemma markUpdate_fields [simp]:
  "cardSet (markUpdate p n sc) = Set_add (Set_delete (cardSet p) n) n"
  "statefulCardSet (markUpdate p n sc) =
     (case sc of None \<Rightarrow> statefulCardSet p
      | Some c \<Rightarrow> Set_add (Set_delete (statefulCardSet p) n) n)"
  "cardPool (markUpdate p n sc) =
     (case sc of None \<Rightarrow> cardPool p
      | Some c \<Rightarrow> if cardPool_get p n = Undefined then (cardPool p)(n \<mapsto> c) else cardPool p)"
  "CAPACITY_CARDS (markUpdate p n sc) = CAPACITY_CARDS p"
  "CAPACITY_STATEFUL_CARDS (markUpdate p n sc) = CAPACITY_STATEFUL_CARDS p"
  by (simp_all add: markUpdate_def Let_def split: option.split)

lemma pool_inv_new: "pool_inv (new_CardPool arg)"
  by (simp add: pool_inv_def new_CardPool_def Let_def)

lemma caps_new:
  "4 \<le> CAPACITY_CARDS (new_CardPool arg)"
  "1 \<le> CAPACITY_STATEFUL_CARDS (new_CardPool arg)"
  "CAPACITY_STATEFUL_CARDS (new_CardPool arg) < CAPACITY_CARDS (new_CardPool arg)"
  by (simp_all add: new_CardPool_def Let_def ceil_quarter split: option.split)

lemma cap_inv_new: "cap_inv (new_CardPool arg)"
  using caps_new [of arg] by (simp add: cap_inv_def caps_ok_def) (simp add: new_CardPool_def Let_def Set_size_def)

lemma pool_inv_markUpdate:
  assumes "pool_inv p" and "cardPool_get p n \<noteq> Undefined \<or> sc \<noteq> None"
  shows "pool_inv (markUpdate p n sc)"
proof (cases sc)
  case None
  with assms(2) have "cardPool p n \<noteq> None \<or> inherited n"
    by (simp add: cardPool_get_Undefined)
  with assms(1) None show ?thesis
    by (auto simp: pool_inv_def set_move distinct_move)
next
  case (Some c)
  with assms(1) show ?thesis
    by (auto simp: pool_inv_def set_move distinct_move cardPool_get_Undefined
        split: if_splits)
qed

lemma pool_inv_insert_markUpdate:
  assumes "pool_inv p" and "cardPool_get p n = Undefined"
  shows "pool_inv (markUpdate (p\<lparr> cardPool := (cardPool p)(n \<mapsto> c) \<rparr>) n None)"
  using assms by (auto simp: pool_inv_def set_move distinct_move cardPool_get_Undefined)

lemma mid_inv_markUpdate:
  assumes "cap_inv p"
  shows "mid_inv (markUpdate p n sc)"
proof -
  have "length (Set_add (Set_delete (cardSet p) n) n) \<le> length (cardSet p) + 1"
    and "length (Set_add (Set_delete (statefulCardSet p) n) n) \<le> length (statefulCardSet p) + 1"
    by (rule length_move)+
  with assms show ?thesis
    by (cases sc) (auto simp: cap_inv_def mid_inv_def caps_ok_def Set_size_def)
qed

lemma cap_inv_cardPool_update: "cap_inv (p\<lparr> cardPool := m \<rparr>) = cap_inv p"
  by (simp add: cap_inv_def caps_ok_def)

lemma pool_inv_purgeStateful: "pool_inv p \<Longrightarrow> pool_inv (purgeStateful p)"
  by (auto simp: pool_inv_def purgeStateful_def set_Set_delete distinct_Set_delete split: list.splits)

lemma pool_inv_purgeCards: "pool_inv p \<Longrightarrow> pool_inv (purgeCards p)"
  by (auto simp: pool_inv_def purgeCards_def purgeLoop_find set_Set_delete distinct_Set_delete
        Set_has_def split: option.splits dest!: find_Some_mem)

lemma pool_inv_purgeUnusedCard: "pool_inv p \<Longrightarrow> pool_inv (purgeUnusedCard p)"
  by (simp add: purgeUnusedCard_def pool_inv_purgeStateful pool_inv_purgeCards)

lemma pigeonhole:
  assumes "distinct xs" and "length ss < length xs"
  shows "\<exists>x. find (\<lambda>n. \<not> Set_has ss n) xs = Some x"
proof (rule ccontr)
  assume "\<not> ?thesis"
  then have "find (\<lambda>n. \<not> Set_has ss n) xs = None" by simp
  then have "set xs \<subseteq> set ss" by (auto simp: find_None_iff Set_has_def)
  then have "card (set xs) \<le> card (set ss)" by (simp add: card_mono)
  moreover have "card (set xs) = length xs" using assms(1) by (rule distinct_card)
  moreover have "card (set ss) \<le> length ss" by (rule card_length)
  ultimately show False using assms(2) by simp
qed

lemma purgeStateful_bound:
  assumes "distinct (statefulCardSet p)" and "mid_inv p"
  shows "Set_size (statefulCardSet (purgeStateful p)) \<le> CAPACITY_STATEFUL_CARDS p"
proof (cases "Set_size (statefulCardSet p) > CAPACITY_STATEFUL_CARDS p")
  case False
  then show ?thesis by (simp add: purgeStateful_def)
next
  case True
  with assms(2) obtain x xs where xs: "statefulCardSet p = x # xs"
    by (cases "statefulCardSet p") (auto simp: mid_inv_def caps_ok_def Set_size_def)
  have "Set_delete (x # xs) x = xs" using assms(1) xs by (simp add: Set_delete_hd)
  then have "statefulCardSet (purgeStateful p) = xs"
    using True xs by (simp add: purgeStateful_def)
  with assms(2) xs show ?thesis by (simp add: mid_inv_def Set_size_def)
qed

lemma purgeCards_bound:
  assumes d: "distinct (cardSet q)" and c: "caps_ok q"
    and t: "Set_size (cardSet q) \<le> CAPACITY_CARDS q + 1"
    and s: "Set_size (statefulCardSet q) \<le> CAPACITY_STATEFUL_CARDS q"
  shows "Set_size (cardSet (purgeCards q)) \<le> CAPACITY_CARDS q"
proof (cases "Set_size (cardSet q) > CAPACITY_CARDS q")
  case False
  then show ?thesis by (simp add: purgeCards_def)
next
  case True
  with c s have "length (statefulCardSet q) < length (cardSet q)"
    by (simp add: caps_ok_def Set_size_def)
  from pigeonhole [OF d this] obtain n
    where f: "find (\<lambda>n. \<not> Set_has (statefulCardSet q) n) (cardSet q) = Some n" ..
  from purgeCards_some(3) [OF d True f] t show ?thesis
    by (simp add: Set_size_def)
qed

lemma cap_inv_purgeUnusedCard:
  assumes "pool_inv m" and "mid_inv m"
  shows "cap_inv (purgeUnusedCard m)"
proof -
  let ?q = "purgeStateful m"
  have d: "distinct (cardSet ?q)" using assms(1) by (simp add: pool_inv_def)
  have c: "caps_ok ?q" using assms(2) by (simp add: mid_inv_def caps_ok_def)
  have t: "Set_size (cardSet ?q) \<le> CAPACITY_CARDS ?q + 1"
    using assms(2) by (simp add: mid_inv_def)
  have s: "Set_size (statefulCardSet ?q) \<le> CAPACITY_STATEFUL_CARDS ?q"
    using purgeStateful_bound [of m] assms by (simp add: pool_inv_def)
  from purgeCards_bound [OF d c t s] s c show ?thesis
    by (simp add: cap_inv_def purgeUnusedCard_def caps_ok_def)
qed

lemma inv_markCardInuse:
  assumes "pool_inv p" and "cap_inv p"
  shows "pool_inv (markCardInuse p n sc) \<and> cap_inv (markCardInuse p n sc)"
proof (cases "cardPool_get p n \<noteq> Undefined \<or> sc \<noteq> None")
  case False
  with assms show ?thesis by (simp add: markCardInuse_def)
next
  case True
  then have eq: "markCardInuse p n sc = purgeUnusedCard (markUpdate p n sc)"
    by (simp add: markCardInuse_def)
  have "pool_inv (markUpdate p n sc)" using assms(1) True by (rule pool_inv_markUpdate)
  moreover have "mid_inv (markUpdate p n sc)" using assms(2) by (rule mid_inv_markUpdate)
  ultimately show ?thesis
    unfolding eq by (simp add: pool_inv_purgeUnusedCard cap_inv_purgeUnusedCard)
qed

lemma getCard_state:
  "fst (getCard lib p n pl) = p
   \<or> fst (getCard lib p n pl) = markCardInuse p n None
   \<or> (\<exists>c. cardPool_get p n = Undefined
          \<and> fst (getCard lib p n pl) =
              purgeUnusedCard (markUpdate (p\<lparr> cardPool := (cardPool p)(n \<mapsto> c) \<rparr>) n None))"
  by (auto simp: getCard_def Let_def markCardInuse_def cardPool_get_def
      split: option.splits sum.splits)

lemma inv_getCard:
  assumes "pool_inv p" and "cap_inv p"
  shows "pool_inv (fst (getCard lib p n pl)) \<and> cap_inv (fst (getCard lib p n pl))"
proof -
  { fix c
    assume u: "cardPool_get p n = Undefined"
    have "pool_inv (markUpdate (p\<lparr> cardPool := (cardPool p)(n \<mapsto> c) \<rparr>) n None)"
      using assms(1) u by (rule pool_inv_insert_markUpdate)
    moreover have "mid_inv (markUpdate (p\<lparr> cardPool := (cardPool p)(n \<mapsto> c) \<rparr>) n None)"
      using assms(2) by (intro mid_inv_markUpdate) (simp add: cap_inv_cardPool_update)
    ultimately have "pool_inv (purgeUnusedCard (markUpdate (p\<lparr> cardPool := (cardPool p)(n \<mapsto> c) \<rparr>) n None))
        \<and> cap_inv (purgeUnusedCard (markUpdate (p\<lparr> cardPool := (cardPool p)(n \<mapsto> c) \<rparr>) n None))"
      by (simp add: pool_inv_purgeUnusedCard cap_inv_purgeUnusedCard) }
  then show ?thesis
    using getCard_state [of lib p n pl] assms inv_markCardInuse [OF assms, of n None]
    by auto
qed

lemma inv_call_step:
  assumes "pool_inv p" and "cap_inv p"
  shows "pool_inv (call_step lib p c) \<and> cap_inv (call_step lib p c)"
  using assms by (cases c) (simp_all add: inv_getCard inv_markCardInuse)

lemma inv_run:
  assumes "pool_inv p" and "cap_inv p"
  shows "pool_inv (run lib p cs) \<and> cap_inv (run lib p cs)"
  using assms by (induction cs arbitrary: p) (simp_all add: inv_call_step)

lemma inv_reachable:
  "pool_inv (run lib (new_CardPool arg) cs)" "cap_inv (run lib (new_CardPool arg) cs)"
  using inv_run [OF pool_inv_new cap_inv_new] by blast+

lemma purgeUnusedCard_caps [simp]:
  "CAPACITY_CARDS (purgeUnusedCard p) = CAPACITY_CARDS p"
  "CAPACITY_STATEFUL_CARDS (purgeUnusedCard p) = CAPACITY_STATEFUL_CARDS p"
  by (simp_all add: purgeUnusedCard_def)

lemma markCardInuse_caps [simp]:
  "CAPACITY_CARDS (markCardInuse p n sc) = CAPACITY_CARDS p"
  "CAPACITY_STATEFUL_CARDS (markCardInuse p n sc) = CAPACITY_STATEFUL_CARDS p"
  by (simp_all add: markCardInuse_def)

lemma getCard_caps [simp]:
  "CAPACITY_CARDS (fst (getCard lib p n pl)) = CAPACITY_CARDS p"
  "CAPACITY_STATEFUL_CARDS (fst (getCard lib p n pl)) = CAPACITY_STATEFUL_CARDS p"
  by (simp_all add: getCard_def Let_def split: option.split sum.split)

lemma call_step_caps [simp]:
  "CAPACITY_CARDS (call_step lib p c) = CAPACITY_CARDS p"
  "CAPACITY_STATEFUL_CARDS (call_step lib p c) = CAPACITY_STATEFUL_CARDS p"
  by (cases c; simp)+

lemma run_caps [simp]:
  "CAPACITY_CARDS (run lib p cs) = CAPACITY_CARDS p"
  "CAPACITY_STATEFUL_CARDS (run lib p cs) = CAPACITY_STATEFUL_CARDS p"
  by (induction cs arbitrary: p) simp_all

lemma new_caps:
  "CAPACITY_CARDS (new_CardPool arg) = max 4 (case arg of None \<Rightarrow> 8 | Some c \<Rightarrow> c)"
  "CAPACITY_STATEFUL_CARDS (new_CardPool arg)
     = \<lceil>real_of_int (max 4 (case arg of None \<Rightarrow> 8 | Some c \<Rightarrow> c)) / 4\<rceil>"
  by (simp_all add: new_CardPool_def Let_def)

lemma purgeStateful_length:
  "length (statefulCardSet (purgeStateful q)) \<le> length (statefulCardSet q)"
  by (auto simp: purgeStateful_def Set_delete_def le_SucI split: list.split)

lemmas pool_eval =
  new_CardPool_def getCard_def markCardInuse_def markUpdate_def purgeUnusedCard_def
  purgeStateful_def purgeCards_def createCardOnDemand_def cardPool_get_def
  inherited_def Object_prototype_def
  Set_add_def Set_delete_def Set_has_def Set_size_def ceil_quarter Let_def

section \<open>Invariants of the reachable pools\<close>

text \<open>
  What the code keeps between calls: the own properties of \<open>cardPool\<close> are the names of
  \<open>cardSet\<close> that are not properties of \<open>Object.prototype\<close>, the stateful names are in
  \<open>cardSet\<close>, and no set holds a name twice.
\<close>

lemma storage_keys_reachable:
  "dom (cardPool (run lib (new_CardPool arg) cs))
     = {n \<in> set (cardSet (run lib (new_CardPool arg) cs)). \<not> inherited n}"
  "set (statefulCardSet (run lib (new_CardPool arg) cs))
     \<subseteq> set (cardSet (run lib (new_CardPool arg) cs))"
  "distinct (cardSet (run lib (new_CardPool arg) cs))"
  "distinct (statefulCardSet (run lib (new_CardPool arg) cs))"
  using inv_reachable(1) [of lib arg cs] unfolding pool_inv_def by blast+

text \<open>
  Claim C3. The claim asks that the names of \<open>cardSet\<close> be the keys of \<open>cardPool\<close>
  between calls. The read \<open>this.cardPool[cardName] !== undefined\<close> of a plain object
  also sees the properties of \<open>Object.prototype\<close>: on a new pool, \<open>getCard\<close> of the name
  toString with no payload takes the branch of a cached card and returns the inherited
  property, and \<open>markCardInuse\<close> puts the name into \<open>cardSet\<close> while \<open>cardPool\<close> stores
  nothing. After this one call \<open>cardSet\<close> holds a name and \<open>cardPool\<close> has no key.
\<close>

theorem inherited_name_enters_cardSet:
  "getCard lib (new_CardPool (Some 4)) ''toString'' None
     = (run lib (new_CardPool (Some 4)) [GetCard ''toString'' None], Inr (Inherited ''toString''))
   \<and> cardSet (run lib (new_CardPool (Some 4)) [GetCard ''toString'' None]) = [''toString'']
   \<and> dom (cardPool (run lib (new_CardPool (Some 4)) [GetCard ''toString'' None])) = {}
   \<and> set (cardSet (run lib (new_CardPool (Some 4)) [GetCard ''toString'' None]))
       \<noteq> dom (cardPool (run lib (new_CardPool (Some 4)) [GetCard ''toString'' None]))"
  by (simp add: pool_eval)

theorem inherited_name_enters_cardSet_witness:
  "cardSet (run demo_lib (new_CardPool (Some 4)) [GetCard ''toString'' None]) = [''toString'']
   \<and> dom (cardPool (run demo_lib (new_CardPool (Some 4)) [GetCard ''toString'' None])) = {}
   \<and> set (cardSet (run demo_lib (new_CardPool (Some 4)) [GetCard ''toString'' None]))
       \<noteq> dom (cardPool (run demo_lib (new_CardPool (Some 4)) [GetCard ''toString'' None]))"
  using inherited_name_enters_cardSet [of demo_lib] by blast

text \<open>
  Claim C10. After any sequence of completed calls on a pool built from any capacity
  argument, \<open>cardSet\<close> holds at most \<open>CAPACITY_CARDS\<close> names and the stateful set at most
  \<open>CAPACITY_STATEFUL_CARDS\<close> names, where the capacities are those the constructor
  computed and the stateful capacity is below the total one.
\<close>

theorem within_capacity_after_call:
  "Set_size (cardSet (run lib (new_CardPool arg) cs))
     \<le> CAPACITY_CARDS (run lib (new_CardPool arg) cs)
   \<and> Set_size (statefulCardSet (run lib (new_CardPool arg) cs))
     \<le> CAPACITY_STATEFUL_CARDS (run lib (new_CardPool arg) cs)
   \<and> CAPACITY_CARDS (run lib (new_CardPool arg) cs)
     = max 4 (case arg of None \<Rightarrow> 8 | Some c \<Rightarrow> c)
   \<and> CAPACITY_STATEFUL_CARDS (run lib (new_CardPool arg) cs)
     = \<lceil>real_of_int (max 4 (case arg of None \<Rightarrow> 8 | Some c \<Rightarrow> c)) / 4\<rceil>
   \<and> CAPACITY_STATEFUL_CARDS (run lib (new_CardPool arg) cs)
     < CAPACITY_CARDS (run lib (new_CardPool arg) cs)"
proof -
  have "cap_inv (run lib (new_CardPool arg) cs)" by (rule inv_reachable)
  then show ?thesis using new_caps [of arg] caps_new(3) [of arg]
    by (simp add: cap_inv_def)
qed

theorem within_capacity_after_call_witness:
  "Set_size (cardSet (run demo_lib (new_CardPool (Some 4)) demo_calls))
     \<le> CAPACITY_CARDS (run demo_lib (new_CardPool (Some 4)) demo_calls)
   \<and> Set_size (statefulCardSet (run demo_lib (new_CardPool (Some 4)) demo_calls))
     \<le> CAPACITY_STATEFUL_CARDS (run demo_lib (new_CardPool (Some 4)) demo_calls)
   \<and> CAPACITY_CARDS (run demo_lib (new_CardPool (Some 4)) demo_calls) = 4
   \<and> CAPACITY_STATEFUL_CARDS (run demo_lib (new_CardPool (Some 4)) demo_calls) = 1"
  using within_capacity_after_call [of demo_lib "Some 4" demo_calls]
  by (simp add: ceil_quarter)

text \<open>
  Claim C6. For a pool built from the capacity argument \<open>c\<close>, the total capacity is
  \<open>max 4 c\<close> and the stateful capacity \<open>max 1 (ceiling (max 4 c / 4))\<close>. After any
  sequence of calls, and also inside a further call (after the updates of
  \<open>markCardInuse\<close> and after the first step of the purge), \<open>cardSet\<close> holds at most one
  name more than the total capacity and the stateful set at most one more than the
  stateful capacity.
\<close>

theorem capacity_bound_plus_one:
  "CAPACITY_CARDS (run lib (new_CardPool (Some c)) cs) = max 4 c
   \<and> CAPACITY_STATEFUL_CARDS (run lib (new_CardPool (Some c)) cs)
       = max 1 \<lceil>real_of_int (max 4 c) / 4\<rceil>
   \<and> Set_size (cardSet (run lib (new_CardPool (Some c)) cs)) \<le> max 4 c + 1
   \<and> Set_size (statefulCardSet (run lib (new_CardPool (Some c)) cs))
       \<le> max 1 \<lceil>real_of_int (max 4 c) / 4\<rceil> + 1
   \<and> Set_size (cardSet (markUpdate (run lib (new_CardPool (Some c)) cs) n sc)) \<le> max 4 c + 1
   \<and> Set_size (statefulCardSet (markUpdate (run lib (new_CardPool (Some c)) cs) n sc))
       \<le> max 1 \<lceil>real_of_int (max 4 c) / 4\<rceil> + 1
   \<and> Set_size (statefulCardSet (purgeStateful (markUpdate (run lib (new_CardPool (Some c)) cs) n sc)))
       \<le> max 1 \<lceil>real_of_int (max 4 c) / 4\<rceil> + 1"
proof -
  let ?p = "run lib (new_CardPool (Some c)) cs"
  let ?m = "markUpdate ?p n sc"
  have capT: "CAPACITY_CARDS ?p = max 4 c"
    using new_caps(1) [of "Some c"] by simp
  have "1 \<le> \<lceil>real_of_int (max 4 c) / 4\<rceil>" by (simp add: ceil_quarter)
  then have capS: "CAPACITY_STATEFUL_CARDS ?p = max 1 \<lceil>real_of_int (max 4 c) / 4\<rceil>"
    using new_caps(2) [of "Some c"] by simp
  have ci: "cap_inv ?p" and pi: "pool_inv ?p" by (rule inv_reachable)+
  have mi: "mid_inv ?m" using ci by (rule mid_inv_markUpdate)
  have b1: "Set_size (cardSet ?p) \<le> CAPACITY_CARDS ?p + 1"
    and b2: "Set_size (statefulCardSet ?p) \<le> CAPACITY_STATEFUL_CARDS ?p + 1"
    using ci by (simp_all add: cap_inv_def)
  have b3: "Set_size (cardSet ?m) \<le> CAPACITY_CARDS ?p + 1"
    and b4: "Set_size (statefulCardSet ?m) \<le> CAPACITY_STATEFUL_CARDS ?p + 1"
    using mi by (simp_all add: mid_inv_def)
  have "length (statefulCardSet (purgeStateful ?m)) \<le> length (statefulCardSet ?m)"
    by (rule purgeStateful_length)
  then have b5: "Set_size (statefulCardSet (purgeStateful ?m)) \<le> CAPACITY_STATEFUL_CARDS ?p + 1"
    using b4 by (simp add: Set_size_def)
  show ?thesis using capT capS b1 b2 b3 b4 b5 by simp
qed

theorem capacity_bound_plus_one_witness:
  "CAPACITY_CARDS (run demo_lib (new_CardPool (Some 4)) demo_calls) = 4
   \<and> CAPACITY_STATEFUL_CARDS (run demo_lib (new_CardPool (Some 4)) demo_calls) = 1
   \<and> Set_size (cardSet (run demo_lib (new_CardPool (Some 4)) demo_calls)) \<le> 5
   \<and> Set_size (statefulCardSet (run demo_lib (new_CardPool (Some 4)) demo_calls)) \<le> 2"
  using capacity_bound_plus_one [of demo_lib 4 demo_calls "''f''" None]
  by (simp add: ceil_quarter)

section \<open>Single calls\<close>

lemma purgeCards_cases:
  "purgeCards q = q
   \<or> (\<exists>n. \<not> Set_has (statefulCardSet q) n \<and> n \<in> set (cardSet q)
          \<and> purgeCards q = q\<lparr> cardSet := Set_delete (cardSet q) n,
                                cardPool := (cardPool q)(n := None) \<rparr>)"
  by (auto simp: purgeCards_def purgeLoop_find split: option.splits dest: find_Some_mem)

lemma Set_delete_snoc_last:
  "n \<noteq> x \<Longrightarrow> Set_delete (ys @ [x]) n \<noteq> [] \<and> last (Set_delete (ys @ [x]) n) = x"
  by (simp add: Set_delete_def)

lemma purgeCards_keeps_newest:
  assumes "cardSet q = ys @ [x]" and "cardPool (purgeCards q) x \<noteq> None"
  shows "cardSet (purgeCards q) \<noteq> [] \<and> last (cardSet (purgeCards q)) = x"
proof -
  from purgeCards_cases [of q] show ?thesis
  proof
    assume "purgeCards q = q"
    with assms(1) show ?thesis by simp
  next
    assume "\<exists>n. \<not> Set_has (statefulCardSet q) n \<and> n \<in> set (cardSet q)
          \<and> purgeCards q = q\<lparr> cardSet := Set_delete (cardSet q) n,
                                cardPool := (cardPool q)(n := None) \<rparr>"
    then obtain n where eq: "purgeCards q = q\<lparr> cardSet := Set_delete (cardSet q) n,
                                cardPool := (cardPool q)(n := None) \<rparr>" by blast
    have "n \<noteq> x" using assms(2) unfolding eq by auto
    then show ?thesis unfolding eq using assms(1) by (simp add: Set_delete_snoc_last)
  qed
qed

lemma markCardInuse_newest:
  assumes "cardPool (markCardInuse p x None) x \<noteq> None"
  shows "cardSet (markCardInuse p x None) \<noteq> [] \<and> last (cardSet (markCardInuse p x None)) = x"
proof (cases "cardPool_get p x \<noteq> Undefined")
  case False
  with assms show ?thesis by (simp add: markCardInuse_def cardPool_get_Undefined)
next
  case True
  let ?q = "purgeStateful (markUpdate p x None)"
  have eq: "markCardInuse p x None = purgeCards ?q"
    using True by (simp add: markCardInuse_def purgeUnusedCard_def)
  have cs: "cardSet ?q = filter (\<lambda>y. y \<noteq> x) (cardSet p) @ [x]"
    by (simp add: move_to_end)
  from purgeCards_keeps_newest [OF cs] assms show ?thesis unfolding eq by simp
qed

text \<open>
  In a pool within its capacities the purge of a call never deletes the name the call
  is about: there are more other names in \<open>cardSet\<close> than stateful names.
\<close>

lemma find_append_first:
  "find P xs = Some k \<Longrightarrow> find P (xs @ ys) = Some k"
  by (induction xs) (auto split: if_splits)

lemma markCardInuse_keeps_newest:
  assumes d: "distinct (cardSet p)" and ci: "cap_inv p" and g: "cardPool_get p n \<noteq> Undefined"
  shows "cardPool_get (markCardInuse p n None) n = cardPool_get p n
         \<and> cardSet (markCardInuse p n None) \<noteq> []
         \<and> last (cardSet (markCardInuse p n None)) = n"
proof -
  let ?m = "markUpdate p n None"
  let ?F = "filter (\<lambda>y. y \<noteq> n) (cardSet p)"
  have ps: "purgeStateful ?m = ?m"
    using ci by (simp add: purgeStateful_def cap_inv_def)
  have eq: "markCardInuse p n None = purgeCards ?m"
    using g by (simp add: markCardInuse_def purgeUnusedCard_def ps)
  have cs: "cardSet ?m = ?F @ [n]" by (simp add: move_to_end)
  have cp: "cardPool ?m = cardPool p" by simp
  show ?thesis
  proof (cases "Set_size (cardSet ?m) > CAPACITY_CARDS ?m")
    case False
    then have "purgeCards ?m = ?m" by (simp add: purgeCards_def)
    then show ?thesis unfolding eq using cs cp by (simp add: cardPool_get_def)
  next
    case True
    then have "CAPACITY_CARDS p \<le> int (length ?F)" by (simp add: move_to_end Set_size_def)
    with ci have "length (statefulCardSet p) < length ?F"
      by (simp add: cap_inv_def caps_ok_def Set_size_def)
    moreover have "distinct ?F" using d by simp
    ultimately obtain k where k: "find (\<lambda>x. \<not> Set_has (statefulCardSet p) x) ?F = Some k"
      using pigeonhole by blast
    then have "k \<in> set ?F" by (auto dest: find_Some_mem)
    then have kn: "k \<noteq> n" by simp
    have "find (\<lambda>x. \<not> Set_has (statefulCardSet ?m) x) (cardSet ?m) = Some k"
      using k by (simp add: move_to_end find_append_first)
    then have pc: "purgeCards ?m = ?m\<lparr> cardSet := Set_delete (cardSet ?m) k,
                                       cardPool := (cardPool ?m)(k := None) \<rparr>"
      using True by (simp add: purgeCards_def purgeLoop_find)
    have a: "cardPool_get (purgeCards ?m) n = cardPool_get p n"
      unfolding pc using kn by (simp add: cardPool_get_def)
    have "cardSet (purgeCards ?m) = Set_delete (?F @ [n]) k"
      unfolding pc by (simp add: move_to_end)
    then have b: "cardSet (purgeCards ?m) \<noteq> [] \<and> last (cardSet (purgeCards ?m)) = n"
      using Set_delete_snoc_last [OF kn, of ?F] by simp
    show ?thesis unfolding eq using a b by blast
  qed
qed

lemma getCard_shape:
  "(\<exists>e. getCard lib p n pl = (p, Inl e))
   \<or> (\<exists>q. getCard lib p n pl =
          (markCardInuse q n None, Inr (cardPool_get (markCardInuse q n None) n))
        \<and> cardSet q = cardSet p \<and> cap_inv q = cap_inv p)"
proof -
  have "cap_inv (p\<lparr> cardPool := m \<rparr>) = cap_inv p" for m
    by (rule cap_inv_cardPool_update)
  then show ?thesis
    by (simp add: getCard_def Let_def split: option.split sum.split) fastforce
qed

lemma getCard_newest_card:
  assumes "snd (getCard lib p n pl) = Inr (Card c)"
  shows "n \<in> set (cardSet (fst (getCard lib p n pl)))
         \<and> last (cardSet (fst (getCard lib p n pl))) = n
         \<and> cardPool (fst (getCard lib p n pl)) n = Some c"
proof -
  obtain q where q: "getCard lib p n pl =
      (markCardInuse q n None, Inr (cardPool_get (markCardInuse q n None) n))"
    using assms getCard_shape [of lib p n pl] by auto
  with assms have "cardPool_get (markCardInuse q n None) n = Card c" by simp
  then have st: "cardPool (markCardInuse q n None) n = Some c"
    by (simp add: cardPool_get_Card)
  then have "cardPool (markCardInuse q n None) n \<noteq> None" by simp
  from markCardInuse_newest [OF this]
  have ne: "cardSet (markCardInuse q n None) \<noteq> []"
    and la: "last (cardSet (markCardInuse q n None)) = n" by simp_all
  from ne la have "n \<in> set (cardSet (markCardInuse q n None))"
    using last_in_set by metis
  with la st show ?thesis by (simp add: q)
qed

lemma getCard_newest_inv:
  assumes pi: "pool_inv p" and ci: "cap_inv p"
    and r: "snd (getCard lib p n pl) = Inr v" and v: "v \<noteq> Undefined"
  shows "n \<in> set (cardSet (fst (getCard lib p n pl)))
         \<and> last (cardSet (fst (getCard lib p n pl))) = n"
proof -
  obtain q where q: "getCard lib p n pl =
      (markCardInuse q n None, Inr (cardPool_get (markCardInuse q n None) n))"
    and cs: "cardSet q = cardSet p" and cq: "cap_inv q = cap_inv p"
    using r getCard_shape [of lib p n pl] by auto
  have d: "distinct (cardSet q)" using pi cs unfolding pool_inv_def by simp
  have ci': "cap_inv q" using ci cq by simp
  have res: "cardPool_get (markCardInuse q n None) n \<noteq> Undefined"
    using r v q by simp
  have g: "cardPool_get q n \<noteq> Undefined"
  proof
    assume "cardPool_get q n = Undefined"
    then have "markCardInuse q n None = q" by (simp add: markCardInuse_def)
    with res \<open>cardPool_get q n = Undefined\<close> show False by simp
  qed
  from markCardInuse_keeps_newest [OF d ci' g]
  have ne: "cardSet (markCardInuse q n None) \<noteq> []"
    and la: "last (cardSet (markCardInuse q n None)) = n" by simp_all
  from ne la have "n \<in> set (cardSet (markCardInuse q n None))"
    using last_in_set by metis
  with la show ?thesis by (simp add: q)
qed

text \<open>
  Claim C4. Let \<open>getCard\<close> return a value that is not \<open>undefined\<close>. If the value is a
  stored card, in any pool whatever, or if the pool is one reached by calls from a new
  pool, then after the call, purge included, the requested name is a member of
  \<open>cardSet\<close> at its last (newest) position; the returned value is what \<open>cardPool\<close> gives
  for the name after the call, and a returned card is the one stored under the name.
\<close>

theorem getCard_present_newest:
  assumes "snd (getCard lib p cardName cardPayload) = Inr v" and "v \<noteq> Undefined"
    and "(\<exists>c. v = Card c) \<or> (\<exists>arg cs. p = run lib (new_CardPool arg) cs)"
  shows "cardName \<in> set (cardSet (fst (getCard lib p cardName cardPayload)))
         \<and> last (cardSet (fst (getCard lib p cardName cardPayload))) = cardName
         \<and> cardPool_get (fst (getCard lib p cardName cardPayload)) cardName = v
         \<and> (\<forall>c. v = Card c \<longrightarrow>
               cardPool (fst (getCard lib p cardName cardPayload)) cardName = Some c)"
proof -
  have val: "cardPool_get (fst (getCard lib p cardName cardPayload)) cardName = v"
    using assms(1) getCard_shape [of lib p cardName cardPayload] by auto
  then have sto: "\<forall>c. v = Card c \<longrightarrow>
      cardPool (fst (getCard lib p cardName cardPayload)) cardName = Some c"
    using cardPool_get_Card by metis
  have "cardName \<in> set (cardSet (fst (getCard lib p cardName cardPayload)))
        \<and> last (cardSet (fst (getCard lib p cardName cardPayload))) = cardName"
    using assms(3)
  proof
    assume "\<exists>c. v = Card c"
    then obtain c where "v = Card c" ..
    with assms(1) have "snd (getCard lib p cardName cardPayload) = Inr (Card c)" by simp
    from getCard_newest_card [OF this] show ?thesis by simp
  next
    assume "\<exists>arg cs. p = run lib (new_CardPool arg) cs"
    then obtain arg cs where p: "p = run lib (new_CardPool arg) cs" by blast
    have "pool_inv p" and "cap_inv p" unfolding p by (rule inv_reachable)+
    then show ?thesis using assms(1,2) by (rule getCard_newest_inv)
  qed
  with val sto show ?thesis by blast
qed

lemma demo_run:
  "run demo_lib (new_CardPool (Some 4)) demo_calls =
     \<lparr> CAPACITY_CARDS = 4, CAPACITY_STATEFUL_CARDS = 1,
       cardPool = [''a'' \<mapsto> 1, ''c'' \<mapsto> 3, ''d'' \<mapsto> 4, ''e'' \<mapsto> 5],
       cardSet = [''c'', ''d'', ''a'', ''e''],
       statefulCardSet = [''a''] \<rparr>"
  by (simp add: demo_calls_def demo_lib_def pool_eval)

theorem getCard_present_newest_witness:
  "(snd (getCard demo_lib (run demo_lib (new_CardPool (Some 4)) demo_calls) ''c'' None)
      = Inr (Card 3)
    \<and> last (cardSet (fst (getCard demo_lib (run demo_lib (new_CardPool (Some 4)) demo_calls)
          ''c'' None))) = ''c''
    \<and> cardPool (fst (getCard demo_lib (run demo_lib (new_CardPool (Some 4)) demo_calls)
          ''c'' None)) ''c'' = Some 3)
   \<and> (snd (getCard demo_lib (run demo_lib (new_CardPool (Some 4)) demo_calls) ''toString'' None)
      = Inr (Inherited ''toString'')
    \<and> last (cardSet (fst (getCard demo_lib (run demo_lib (new_CardPool (Some 4)) demo_calls)
          ''toString'' None))) = ''toString'')"
proof -
  let ?p = "run demo_lib (new_CardPool (Some 4)) demo_calls"
  have h1: "snd (getCard demo_lib ?p ''c'' None) = Inr (Card 3)"
    unfolding demo_run by (simp add: pool_eval)
  have n1: "Card (3::nat) \<noteq> Undefined" by simp
  have k1: "(\<exists>c. Card (3::nat) = Card c)
            \<or> (\<exists>arg cs. ?p = run demo_lib (new_CardPool arg) cs)" by blast
  have h2: "snd (getCard demo_lib ?p ''toString'' None) = Inr (Inherited ''toString'')"
    unfolding demo_run by (simp add: pool_eval)
  have n2: "(Inherited ''toString'' :: nat jsval) \<noteq> Undefined" by simp
  have k2: "(\<exists>c. (Inherited ''toString'' :: nat jsval) = Card c)
            \<or> (\<exists>arg cs. ?p = run demo_lib (new_CardPool arg) cs)" by blast
  from getCard_present_newest [OF h1 n1 k1] getCard_present_newest [OF h2 n2 k2] h1 h2
  show ?thesis by simp
qed

text \<open>
  In a reachable pool a cached name, and a miss with a payload that the library parses,
  do return a value that is not \<open>undefined\<close>.
\<close>

lemma getCard_returns_card:
  assumes pi: "pool_inv p" and ci: "cap_inv p"
    and hit: "cardPool_get p n \<noteq> Undefined
              \<or> (\<exists>payload. pl = Some payload \<and> createCardOnDemand lib n payload = Inr c)"
  shows "\<exists>v. snd (getCard lib p n pl) = Inr v \<and> v \<noteq> Undefined"
proof (cases "cardPool_get p n \<noteq> Undefined")
  case True
  have d: "distinct (cardSet p)" using pi unfolding pool_inv_def by blast
  from markCardInuse_keeps_newest [OF d ci True] True show ?thesis
    by (auto simp: getCard_def Let_def)
next
  case False
  with hit obtain payload where pl: "pl = Some payload"
    and cr: "createCardOnDemand lib n payload = Inr c" by blast
  let ?p = "p\<lparr> cardPool := (cardPool p)(n \<mapsto> c) \<rparr>"
  have d: "distinct (cardSet ?p)" using pi unfolding pool_inv_def by simp
  have ci': "cap_inv ?p" using ci by (simp add: cap_inv_cardPool_update)
  have sto: "cardPool_get ?p n \<noteq> Undefined" by (simp add: cardPool_get_def)
  from markCardInuse_keeps_newest [OF d ci' sto] False pl cr sto show ?thesis
    by (simp add: getCard_def Let_def)
qed

lemma getCard_returns_card_reachable:
  assumes "cardPool_get (run lib (new_CardPool arg) cs) n \<noteq> Undefined
           \<or> (\<exists>payload. pl = Some payload \<and> createCardOnDemand lib n payload = Inr c)"
  shows "\<exists>v. snd (getCard lib (run lib (new_CardPool arg) cs) n pl) = Inr v \<and> v \<noteq> Undefined"
  using inv_reachable [of lib arg cs] assms by (rule getCard_returns_card)

text \<open>
  Claim C7. On a new pool of capacity 4 (one stateful slot), with a library that
  parses the five payloads: after \<open>getCard\<close> of a, b, c, d with payloads,
  \<open>markCardInuse\<close> of a with a stateful card and \<open>getCard\<close> of e with a payload, the card
  of a is still stored and a is the one stateful name, while b has left both \<open>cardPool\<close>
  and \<open>cardSet\<close>.
\<close>

theorem protection_precedence:
  assumes "parse lib pa = Inr ca" and "parse lib pb = Inr cb" and "parse lib pc = Inr cc"
    and "parse lib pd = Inr cd" and "parse lib pe = Inr ce"
  shows "CAPACITY_CARDS (run lib (new_CardPool (Some 4)) (protection_calls pa pb pc pd statefulRef pe)) = 4
    \<and> CAPACITY_STATEFUL_CARDS (run lib (new_CardPool (Some 4)) (protection_calls pa pb pc pd statefulRef pe)) = 1
    \<and> cardPool (run lib (new_CardPool (Some 4)) (protection_calls pa pb pc pd statefulRef pe)) ''a''
        = Some (setCustomProperty lib ''cardName'' ''a'' ca)
    \<and> cardPool (run lib (new_CardPool (Some 4)) (protection_calls pa pb pc pd statefulRef pe)) ''b'' = None
    \<and> ''b'' \<notin> set (cardSet (run lib (new_CardPool (Some 4)) (protection_calls pa pb pc pd statefulRef pe)))
    \<and> cardSet (run lib (new_CardPool (Some 4)) (protection_calls pa pb pc pd statefulRef pe))
        = [''c'', ''d'', ''a'', ''e'']
    \<and> statefulCardSet (run lib (new_CardPool (Some 4)) (protection_calls pa pb pc pd statefulRef pe))
        = [''a'']"
  using assms by (simp add: protection_calls_def pool_eval)

theorem protection_precedence_witness:
  "parse demo_lib 1 = Inr 1 \<and> parse demo_lib 2 = Inr 2 \<and> parse demo_lib 3 = Inr 3
   \<and> parse demo_lib 4 = Inr 4 \<and> parse demo_lib 5 = Inr 5
   \<and> cardPool (run demo_lib (new_CardPool (Some 4)) (protection_calls 1 2 3 4 7 5)) ''a'' = Some 1
   \<and> cardPool (run demo_lib (new_CardPool (Some 4)) (protection_calls 1 2 3 4 7 5)) ''b'' = None
   \<and> cardSet (run demo_lib (new_CardPool (Some 4)) (protection_calls 1 2 3 4 7 5))
       = [''c'', ''d'', ''a'', ''e'']"
proof -
  have h: "parse demo_lib 1 = Inr 1" "parse demo_lib 2 = Inr 2" "parse demo_lib 3 = Inr 3"
    "parse demo_lib 4 = Inr 4" "parse demo_lib 5 = Inr 5"
    by (simp_all add: demo_lib_def)
  have s: "setCustomProperty demo_lib ''cardName'' ''a'' 1 = 1" by (simp add: demo_lib_def)
  from protection_precedence [OF h, of 7] h s show ?thesis by simp
qed

text \<open>
  Claim C8. \<open>createCardOnDemand\<close> is called only when \<open>getCard\<close> misses, that is, when the
  read of \<open>cardPool\<close> gives \<open>undefined\<close>. If it throws there, the exception leaves
  \<open>getCard\<close> and the pool is the one before the call: nothing was inserted into
  \<open>cardPool\<close>, \<open>cardSet\<close> or the stateful set. More generally, whenever an exception
  leaves \<open>getCard\<close>, with any arguments, the pool is as before the call.
\<close>

theorem factory_failure_atomic:
  assumes "cardPool_get p cardName = Undefined"
    and "createCardOnDemand lib cardName payload = Inl e"
  shows "getCard lib p cardName (Some payload) = (p, Inl e)
         \<and> cardPool (fst (getCard lib p cardName (Some payload))) = cardPool p
         \<and> cardSet (fst (getCard lib p cardName (Some payload))) = cardSet p
         \<and> statefulCardSet (fst (getCard lib p cardName (Some payload))) = statefulCardSet p
         \<and> (\<forall>q n pl e'. snd (getCard lib q n pl) = Inl e' \<longrightarrow> fst (getCard lib q n pl) = q)"
proof -
  have a: "getCard lib p cardName (Some payload) = (p, Inl e)"
    using assms by (simp add: getCard_def)
  have b: "\<forall>q n pl e'. snd (getCard lib q n pl) = Inl e' \<longrightarrow> fst (getCard lib q n pl) = q"
    by (auto simp: getCard_def Let_def split: if_splits option.splits sum.splits)
  show ?thesis using a b by simp
qed

theorem factory_failure_atomic_witness:
  "cardPool_get (new_CardPool (Some 4) :: nat CardPool) ''a'' = Undefined
   \<and> createCardOnDemand demo_lib ''a'' 0 = Inl ()
   \<and> getCard demo_lib (new_CardPool (Some 4)) ''a'' (Some 0) = (new_CardPool (Some 4), Inl ())"
proof -
  have h1: "cardPool_get (new_CardPool (Some 4) :: nat CardPool) ''a'' = Undefined"
    by (simp add: pool_eval)
  have h2: "createCardOnDemand demo_lib ''a'' 0 = Inl ()"
    by (simp add: createCardOnDemand_def demo_lib_def)
  from factory_failure_atomic [OF h1 h2] h1 h2 show ?thesis by blast
qed

lemma purgeStateful_keeps_newest:
  assumes s: "statefulCardSet m = zs @ [x]" and nx: "x \<notin> set zs"
    and cap: "1 \<le> CAPACITY_STATEFUL_CARDS m"
  shows "\<exists>ws. statefulCardSet (purgeStateful m) = ws @ [x]"
proof (cases "Set_size (statefulCardSet m) > CAPACITY_STATEFUL_CARDS m")
  case False
  then show ?thesis using s by (simp add: purgeStateful_def)
next
  case True
  with cap s have "zs \<noteq> []" by (auto simp: Set_size_def)
  then obtain z zs' where zs: "zs = z # zs'" by (cases zs) auto
  with nx have "z \<noteq> x" by auto
  then have "statefulCardSet (purgeStateful m) = filter (\<lambda>y. y \<noteq> z) zs' @ [x]"
    using True s zs by (simp add: purgeStateful_def Set_delete_def)
  then show ?thesis by blast
qed

lemma purgeCards_keeps_protected:
  assumes "x \<in> set (statefulCardSet q)" and "cardSet q = ys @ [x]"
  shows "cardPool (purgeCards q) x = cardPool q x
         \<and> cardSet (purgeCards q) \<noteq> [] \<and> last (cardSet (purgeCards q)) = x"
proof -
  from purgeCards_cases [of q] show ?thesis
  proof
    assume "purgeCards q = q"
    with assms(2) show ?thesis by simp
  next
    assume "\<exists>n. \<not> Set_has (statefulCardSet q) n \<and> n \<in> set (cardSet q)
          \<and> purgeCards q = q\<lparr> cardSet := Set_delete (cardSet q) n,
                                cardPool := (cardPool q)(n := None) \<rparr>"
    then obtain n where n: "\<not> Set_has (statefulCardSet q) n"
      and eq: "purgeCards q = q\<lparr> cardSet := Set_delete (cardSet q) n,
                                cardPool := (cardPool q)(n := None) \<rparr>" by blast
    have "n \<noteq> x" using n assms(1) by (auto simp: Set_has_def)
    then show ?thesis unfolding eq using assms(2) by (simp add: Set_delete_snoc_last)
  qed
qed

text \<open>
  What \<open>markCardInuse\<close> with a stateful card does in general: the name becomes the newest
  of both sets, the card is stored only when the read of \<open>cardPool\<close> gave \<open>undefined\<close>,
  then the purge runs; with at least one stateful slot the purge keeps the name newest
  in both sets and leaves what \<open>cardPool\<close> holds under the name.
\<close>

lemma markCardInuse_stateful:
  "markCardInuse p cardName (Some statefulRef) =
     purgeUnusedCard
       (p\<lparr> cardSet := filter (\<lambda>y. y \<noteq> cardName) (cardSet p) @ [cardName],
          statefulCardSet := filter (\<lambda>y. y \<noteq> cardName) (statefulCardSet p) @ [cardName],
          cardPool := (if cardPool_get p cardName = Undefined
                       then (cardPool p)(cardName \<mapsto> statefulRef) else cardPool p) \<rparr>)"
  by (simp add: markCardInuse_def markUpdate_def move_to_end)

lemma markCardInuse_stateful_post:
  assumes cap: "1 \<le> CAPACITY_STATEFUL_CARDS p"
  shows "cardPool (markCardInuse p cardName (Some statefulRef)) cardName
           = (if cardPool_get p cardName = Undefined then Some statefulRef
              else cardPool p cardName)
         \<and> cardName \<in> set (cardSet (markCardInuse p cardName (Some statefulRef)))
         \<and> last (cardSet (markCardInuse p cardName (Some statefulRef))) = cardName
         \<and> cardName \<in> set (statefulCardSet (markCardInuse p cardName (Some statefulRef)))
         \<and> last (statefulCardSet (markCardInuse p cardName (Some statefulRef))) = cardName"
proof -
  let ?m = "p\<lparr> cardSet := filter (\<lambda>y. y \<noteq> cardName) (cardSet p) @ [cardName],
          statefulCardSet := filter (\<lambda>y. y \<noteq> cardName) (statefulCardSet p) @ [cardName],
          cardPool := (if cardPool_get p cardName = Undefined
                       then (cardPool p)(cardName \<mapsto> statefulRef) else cardPool p) \<rparr>"
  let ?r = "markCardInuse p cardName (Some statefulRef)"
  let ?q = "purgeStateful ?m"
  have eq: "?r = purgeUnusedCard ?m" by (rule markCardInuse_stateful)
  have sm: "statefulCardSet ?m = filter (\<lambda>y. y \<noteq> cardName) (statefulCardSet p) @ [cardName]"
    by simp
  have nm: "cardName \<notin> set (filter (\<lambda>y. y \<noteq> cardName) (statefulCardSet p))"
    by simp
  have cm: "1 \<le> CAPACITY_STATEFUL_CARDS ?m" using cap by simp
  have "\<exists>ws. statefulCardSet ?q = ws @ [cardName]"
    using sm nm cm by (rule purgeStateful_keeps_newest)
  then obtain ws where ws: "statefulCardSet ?q = ws @ [cardName]" ..
  then have mem: "cardName \<in> set (statefulCardSet ?q)" by simp
  have cs: "cardSet ?q = filter (\<lambda>y. y \<noteq> cardName) (cardSet p) @ [cardName]" by simp
  note k = purgeCards_keeps_protected [OF mem cs]
  have r: "?r = purgeCards ?q" by (simp only: eq purgeUnusedCard_def)
  have sto: "cardPool ?r cardName
      = (if cardPool_get p cardName = Undefined then Some statefulRef else cardPool p cardName)"
    using k unfolding r by simp
  have ne: "cardSet ?r \<noteq> []" and la: "last (cardSet ?r) = cardName"
    using k unfolding r by simp_all
  have inset: "cardName \<in> set (cardSet ?r)" using ne la last_in_set by metis
  have st: "statefulCardSet ?r = ws @ [cardName]" unfolding r using ws by simp
  show ?thesis using sto inset la st by simp
qed

lemma revival_not_inherited:
  assumes "cardPool p cardName = None" and "\<not> inherited cardName"
    and "1 \<le> CAPACITY_STATEFUL_CARDS p"
  shows "cardPool (markCardInuse p cardName (Some statefulRef)) cardName = Some statefulRef
         \<and> last (cardSet (markCardInuse p cardName (Some statefulRef))) = cardName
         \<and> last (statefulCardSet (markCardInuse p cardName (Some statefulRef))) = cardName"
  using markCardInuse_stateful_post [OF assms(3), of cardName statefulRef] assms(1,2)
  by (simp add: cardPool_get_Undefined)

text \<open>
  Claim C5. The claim asks that \<open>markCardInuse\<close> with a stateful card, for a name with
  no entry in \<open>cardPool\<close>, store that card under the name. The assignment
  \<open>this.cardPool[cardName] ??= statefulCard\<close> reads through \<open>Object.prototype\<close>: on a new
  pool, \<open>markCardInuse\<close> of the name toString with a card puts the name into both sets,
  but the read gives the inherited property, and nothing is stored.
\<close>

theorem revival_of_inherited_name_stores_nothing:
  "cardPool (new_CardPool (Some 4) :: 'c CardPool) ''toString'' = None
   \<and> cardPool (markCardInuse (new_CardPool (Some 4)) ''toString'' (Some (statefulRef :: 'c)))
        ''toString'' = None
   \<and> cardPool_get (markCardInuse (new_CardPool (Some 4)) ''toString'' (Some statefulRef))
        ''toString'' = Inherited ''toString''
   \<and> cardSet (markCardInuse (new_CardPool (Some 4)) ''toString'' (Some statefulRef))
        = [''toString'']
   \<and> statefulCardSet (markCardInuse (new_CardPool (Some 4)) ''toString'' (Some statefulRef))
        = [''toString'']"
  by (simp add: pool_eval)

theorem revival_of_inherited_name_stores_nothing_witness:
  "cardPool (new_CardPool (Some 4) :: nat CardPool) ''toString'' = None
   \<and> cardPool (markCardInuse (new_CardPool (Some 4)) ''toString'' (Some (9 :: nat)))
        ''toString'' = None
   \<and> cardSet (markCardInuse (new_CardPool (Some 4)) ''toString'' (Some (9 :: nat)))
        = [''toString'']
   \<and> statefulCardSet (markCardInuse (new_CardPool (Some 4)) ''toString'' (Some (9 :: nat)))
        = [''toString'']"
  using revival_of_inherited_name_stores_nothing [of "9 :: nat"] by blast

lemma purgeUnusedCard_within:
  assumes "cap_inv p"
  shows "purgeUnusedCard p = p"
  using assms by (simp add: cap_inv_def purgeUnusedCard_def purgeStateful_def purgeCards_def)

lemma markCardInuse_newest_id:
  assumes pi: "pool_inv p" and ci: "cap_inv p"
    and sto: "cardPool p x \<noteq> None" and la: "last (cardSet p) = x"
  shows "markCardInuse p x None = p"
proof -
  have "x \<in> dom (cardPool p)" using sto by auto
  then have "x \<in> set (cardSet p)" using pi unfolding pool_inv_def by blast
  then have ne: "cardSet p \<noteq> []" by auto
  have d: "distinct (cardSet p)" using pi unfolding pool_inv_def by blast
  have "Set_add (Set_delete (cardSet p) x) x = cardSet p"
    using d ne la by (rule move_last)
  then have "markUpdate p x None = p" by (simp add: markUpdate_def)
  moreover have "cardPool_get p x \<noteq> Undefined" using sto by (simp add: cardPool_get_Undefined)
  ultimately show ?thesis using ci by (simp add: markCardInuse_def purgeUnusedCard_within)
qed

text \<open>
  Claim C9. In a pool reached by calls from a new pool, let a card be stored under
  the name x and x be the newest name of \<open>cardSet\<close>. Then one \<open>markCardInuse\<close> of x
  without a stateful card leaves the pool as it is, and so do two in a row: both sets
  keep their members and their order.
\<close>

theorem touch_newest_idempotent:
  assumes "p = run lib (new_CardPool arg) cs"
    and "cardPool p x \<noteq> None" and "last (cardSet p) = x"
  shows "markCardInuse (markCardInuse p x None) x None = p
         \<and> cardSet (markCardInuse (markCardInuse p x None) x None) = cardSet p
         \<and> statefulCardSet (markCardInuse (markCardInuse p x None) x None) = statefulCardSet p
         \<and> cardSet (markCardInuse p x None) = cardSet p
         \<and> statefulCardSet (markCardInuse p x None) = statefulCardSet p"
proof -
  have pi: "pool_inv p" and ci: "cap_inv p"
    unfolding assms(1) by (rule inv_reachable)+
  have once: "markCardInuse p x None = p"
    using pi ci assms(2,3) by (rule markCardInuse_newest_id)
  then show ?thesis by simp
qed

theorem touch_newest_idempotent_witness:
  "cardPool (run demo_lib (new_CardPool (Some 4)) demo_calls) ''e'' \<noteq> None
   \<and> last (cardSet (run demo_lib (new_CardPool (Some 4)) demo_calls)) = ''e''
   \<and> markCardInuse (markCardInuse (run demo_lib (new_CardPool (Some 4)) demo_calls) ''e'' None)
        ''e'' None
      = run demo_lib (new_CardPool (Some 4)) demo_calls"
proof -
  have h1: "cardPool (run demo_lib (new_CardPool (Some 4)) demo_calls) ''e'' \<noteq> None"
    by (simp add: demo_run)
  have h2: "last (cardSet (run demo_lib (new_CardPool (Some 4)) demo_calls)) = ''e''"
    by (simp add: demo_run)
  from touch_newest_idempotent [OF refl h1 h2] h1 h2 show ?thesis by blast
qed

end
